theory Spec2Isabelle
  imports Main "HOL-Library.Sublist"
begin

section \<open>Gene-to-protein resolution of \<open>alphafold_core/data/fetcher.py\<close>\<close>

text \<open>
  The development embeds the gene search of class \<open>UniProtFetcher\<close>: the query builder,
  the four-strategy waterfall of \<open>search_by_gene_name_robust\<close>, the handling of one
  search response in \<open>_search_with_strategy\<close>, and the batch loop of
  \<open>search_multiple_genes_robust\<close>, together with the two legacy entry points.

  Python strings are modelled as \<open>string\<close>, one \<open>char\<close> per code point below 256.
  Logging, the progress bar and the length of the delays (\<open>time.sleep\<close>) change no
  returned value and no request, and are left out; a delay enters the model only where
  the call of \<open>time.sleep\<close> can raise.
\<close>

subsection \<open>Search criteria and the query string\<close>

text \<open>The dataclass \<open>SearchCriteria\<close> with its defaults.\<close>

record SearchCriteria =
  organism_id :: "string option"
  reviewed_only :: bool
  exact_match :: bool
  max_results :: int
  include_synonyms :: bool

definition default_criteria :: SearchCriteria where
  "default_criteria =
     \<lparr>organism_id = Some ''9606'', reviewed_only = True, exact_match = True,
      max_results = 10, include_synonyms = True\<rparr>"

text \<open>Python's \<open>sep.join(parts)\<close>.\<close>

fun join :: "string \<Rightarrow> string list \<Rightarrow> string" where
  "join sep [] = []"
| "join sep [p] = p"
| "join sep (p # q # ps) = p @ sep @ join sep (q # ps)"

text \<open>
  \<open>if criteria.organism_id:\<close> tests truthiness: the clause is added for a non-empty
  string only, neither for \<open>None\<close> nor for \<open>""\<close>.
\<close>

definition organism_clause :: "string option \<Rightarrow> string list" where
  "organism_clause oid =
     (case oid of None \<Rightarrow> []
      | Some s \<Rightarrow> if s = [] then [] else [''organism_id:'' @ s])"

definition build_search_query :: "string \<Rightarrow> SearchCriteria \<Rightarrow> string" where
  "build_search_query gene_name criteria =
     join '' AND ''
       ((if exact_match criteria then [''gene_exact:'' @ gene_name]
         else [''gene:'' @ gene_name])
        @ organism_clause (organism_id criteria)
        @ (if reviewed_only criteria then [''reviewed:true''] else []))"

text \<open>
  The list \<open>strategies\<close> built at the start of \<open>search_by_gene_name_robust\<close>. Each
  element is constructed without \<open>include_synonyms\<close>, which so takes its default.
\<close>

definition strategies :: "SearchCriteria \<Rightarrow> SearchCriteria list" where
  "strategies criteria =
     [\<lparr>organism_id = organism_id criteria, reviewed_only = True, exact_match = True,
       max_results = max_results criteria, include_synonyms = True\<rparr>,
      \<lparr>organism_id = organism_id criteria, reviewed_only = False, exact_match = True,
       max_results = max_results criteria, include_synonyms = True\<rparr>,
      \<lparr>organism_id = organism_id criteria, reviewed_only = True, exact_match = False,
       max_results = max_results criteria, include_synonyms = True\<rparr>,
      \<lparr>organism_id = organism_id criteria, reviewed_only = False, exact_match = False,
       max_results = max_results criteria, include_synonyms = True\<rparr>]"

text \<open>\<open>if criteria is None: criteria = SearchCriteria()\<close>.\<close>

definition criteria_or_default :: "SearchCriteria option \<Rightarrow> SearchCriteria" where
  "criteria_or_default criteria = (case criteria of None \<Rightarrow> default_criteria | Some c \<Rightarrow> c)"

subsection \<open>Search responses and the extracted protein record\<close>

text \<open>
  One element of the \<open>results\<close> array of a search response, typed after the keys the
  code reads. A field is \<open>None\<close> when its key (or a key on the path to it) is absent:
  \<open>genes\<close> holds, for each gene object, the string at \<open>geneName.value\<close>;
  \<open>recommended_full_name\<close> is the string at
  \<open>proteinDescription.recommendedName.fullName.value\<close>; \<open>reviewed_key\<close> is the
  entry's own key \<open>reviewed\<close>, read by \<open>r.get("reviewed", False)\<close>.
\<close>

record uniprot_entry =
  primaryAccession :: "string option"
  uniProtkbId :: "string option"
  genes :: "string option list"
  recommended_full_name :: "string option"
  entryType :: "string option"
  sequence_value :: "string option"
  organism_scientific_name :: "string option"
  reviewed_key :: "bool option"
  protein_name_value :: "string option"

text \<open>
  The dictionary returned for a found protein. The last five keys are set by
  \<open>_search_with_strategy\<close> after the extraction; \<open>all_accessions\<close> and
  \<open>all_protein_names\<close> exist in the multiple-results case only.
\<close>

record protein_info =
  accession :: "string option"
  uniprot_id :: "string option"
  gene_names :: string
  protein_name :: string
  sequence :: "string option"
  organism :: string
  reviewed :: bool
  entry_type :: string
  multiple_results_found :: "bool option"
  total_results :: "nat option"
  selected_result :: "string option"
  all_accessions :: "string option list option"
  all_protein_names :: "string list option"

definition get_or :: "'a option \<Rightarrow> 'a \<Rightarrow> 'a" where
  "get_or v d = (case v of None \<Rightarrow> d | Some x \<Rightarrow> x)"

definition extract_protein_info :: "uniprot_entry \<Rightarrow> string \<Rightarrow> protein_info" where
  "extract_protein_info result gene_name =
     \<lparr>accession = primaryAccession result,
      uniprot_id = uniProtkbId result,
      gene_names = (case genes result of [] \<Rightarrow> gene_name | g # _ \<Rightarrow> get_or g gene_name),
      protein_name = get_or (recommended_full_name result) ''Unknown'',
      sequence = sequence_value result,
      organism = get_or (organism_scientific_name result) ''Unknown'',
      reviewed = prefix ''UniProtKB reviewed'' (get_or (entryType result) []),
      entry_type = get_or (entryType result) ''Unknown'',
      multiple_results_found = None,
      total_results = None,
      selected_result = None,
      all_accessions = None,
      all_protein_names = None\<rparr>"

text \<open>Truthiness of \<open>r.get("reviewed", False)\<close>.\<close>

definition is_marked_reviewed :: "uniprot_entry \<Rightarrow> bool" where
  "is_marked_reviewed r = (reviewed_key r = Some True)"

text \<open>A call either raises or returns; the strategy loop catches every \<open>Exception\<close>.\<close>

datatype 'a res = Raise | Return 'a

text \<open>
  The branch \<open>if response.ok:\<close> of \<open>_search_with_strategy\<close>, from
  \<open>results = data.get("results", [])\<close> to \<open>return protein_info\<close>; \<open>original\<close> is
  \<open>data.get("results", [])\<close>, which the code reads again after the restriction.
  \<open>results[0]\<close> raises on an empty list.
\<close>

definition prioritize_reviewed :: "uniprot_entry list \<Rightarrow> uniprot_entry list" where
  "prioritize_reviewed original =
     (if length original > 1 then
        (let reviewed_results = filter is_marked_reviewed original
         in if reviewed_results \<noteq> [] then reviewed_results else original)
      else original)"

definition handle_results :: "string \<Rightarrow> uniprot_entry list \<Rightarrow> protein_info option res" where
  "handle_results gene_name original =
     (if original = [] then Return None
      else
        (case prioritize_reviewed original of
           [] \<Rightarrow> Raise
         | result # _ \<Rightarrow>
             (let info = extract_protein_info result gene_name
              in if length original > 1 then
                   Return (Some (info\<lparr>multiple_results_found := Some True,
                              total_results := Some (length original),
                              selected_result :=
                                Some (if list_ex is_marked_reviewed original
                                      then ''First reviewed entry'' else ''First result''),
                              all_accessions := Some (map primaryAccession original),
                              all_protein_names :=
                                Some (map (\<lambda>r. get_or (protein_name_value r) ''Unknown'')
                                        original)\<rparr>))
                 else
                   Return (Some (info\<lparr>multiple_results_found := Some False,
                              total_results := Some 1,
                              selected_result := Some ''Single result''\<rparr>)))))"

subsection \<open>The session and one strategy\<close>

text \<open>
  A request carries the parameters that vary: the query and \<open>size\<close>. What
  \<open>session.get\<close> hands back is either an exception or a response with its status code,
  its \<open>Retry-After\<close> header and its body; the body is \<open>None\<close> when
  \<open>response.json()\<close> would raise, and otherwise the value of
  \<open>data.get("results", [])\<close>. A server is a function of the requests made so far,
  the current one last, so it may answer the same request differently over time.
\<close>

record request =
  query :: string
  size :: int

text \<open>
  The header \<open>Retry-After\<close>: absent, a text that \<open>int()\<close> reads as a number of
  seconds, or any other text.
\<close>

datatype retry_after = Absent | Seconds int | Unparsable

datatype outcome = Raises | Response nat retry_after "uniprot_entry list option"

type_synonym server = "request list \<Rightarrow> outcome"

definition mk_request :: "string \<Rightarrow> SearchCriteria \<Rightarrow> request" where
  "mk_request gene_name criteria =
     \<lparr>query = build_search_query gene_name criteria, size = max_results criteria\<rparr>"

text \<open>\<open>response.ok\<close>: no client or server error status.\<close>

definition response_ok :: "nat \<Rightarrow> bool" where
  "response_ok status \<longleftrightarrow> \<not> (400 \<le> status \<and> status < 600)"

text \<open>
  \<open>int(response.headers.get('Retry-After', 60))\<close> followed by \<open>time.sleep\<close>: the
  seconds waited, or \<open>None\<close> when one of the two raises: \<open>ValueError\<close> for a text
  that is no integer or for a negative duration, \<open>OverflowError\<close> for a duration
  beyond the 64-bit nanosecond clock (more than 9223372036 seconds).
\<close>

definition retry_wait :: "retry_after \<Rightarrow> int option" where
  "retry_wait header =
     (case header of
        Absent \<Rightarrow> Some 60
      | Seconds n \<Rightarrow> if n < 0 \<or> 9223372036 < n then None else Some n
      | Unparsable \<Rightarrow> None)"

text \<open>
  \<open>_search_with_strategy\<close>, with the list of the calls of \<open>session.get\<close> made so far
  threaded through. On status 429 the method waits and calls itself again with the same
  arguments. It keeps no counter; what ends a run of 429 answers is the interpreter:
  \<open>depth\<close> is the number of further nested calls that fit under its recursion limit
  (somewhat below 1000 with the default limit), and the call that does not fit raises
  \<open>RecursionError\<close>, an \<open>Exception\<close> like the others.
\<close>

fun search_with_strategy ::
  "nat \<Rightarrow> server \<Rightarrow> string \<Rightarrow> SearchCriteria \<Rightarrow> request list
     \<Rightarrow> protein_info option res \<times> request list" where
  "search_with_strategy depth srv gene_name criteria sent =
     (let sent' = sent @ [mk_request gene_name criteria] in
      case srv sent' of
        Raises \<Rightarrow> (Raise, sent')
      | Response status header body \<Rightarrow>
          if response_ok status then
            (case body of
               None \<Rightarrow> (Raise, sent')
             | Some results \<Rightarrow> (handle_results gene_name results, sent'))
          else if status = 429 then
            (case retry_wait header of
               None \<Rightarrow> (Raise, sent')
             | Some seconds \<Rightarrow>
                 (case depth of
                    0 \<Rightarrow> (Raise, sent')
                  | Suc deeper \<Rightarrow> search_with_strategy deeper srv gene_name criteria sent'))
          else (Return None, sent'))"

declare search_with_strategy.simps [simp del]

subsection \<open>The waterfall and the batch loop\<close>

text \<open>
  The \<open>for\<close> loop of \<open>search_by_gene_name_robust\<close>: a truthy result is returned at
  once; \<open>None\<close> and a caught exception both go on to the next strategy.
\<close>

fun try_strategies ::
  "nat \<Rightarrow> server \<Rightarrow> string \<Rightarrow> SearchCriteria list \<Rightarrow> request list
     \<Rightarrow> protein_info option \<times> request list" where
  "try_strategies depth srv gene_name [] sent = (None, sent)"
| "try_strategies depth srv gene_name (strategy # rest) sent =
     (case search_with_strategy depth srv gene_name strategy sent of
        (Return (Some info), sent') \<Rightarrow> (Some info, sent')
      | (Return None, sent') \<Rightarrow> try_strategies depth srv gene_name rest sent'
      | (Raise, sent') \<Rightarrow> try_strategies depth srv gene_name rest sent')"

definition search_by_gene_name_robust ::
  "nat \<Rightarrow> server \<Rightarrow> string \<Rightarrow> SearchCriteria option \<Rightarrow> request list
     \<Rightarrow> protein_info option \<times> request list" where
  "search_by_gene_name_robust depth srv gene_name criteria sent =
     try_strategies depth srv gene_name (strategies (criteria_or_default criteria)) sent"

definition search_by_gene_name ::
  "nat \<Rightarrow> server \<Rightarrow> string \<Rightarrow> request list \<Rightarrow> protein_info option \<times> request list" where
  "search_by_gene_name depth srv gene_name sent =
     search_by_gene_name_robust depth srv gene_name (Some default_criteria) sent"

text \<open>\<open>str.isspace\<close> on code points below 256, and \<open>str.strip()\<close>.\<close>

definition isspace :: "char \<Rightarrow> bool" where
  "isspace c =
     (let n = (of_char c :: nat)
      in (9 \<le> n \<and> n \<le> 13) \<or> (28 \<le> n \<and> n \<le> 32) \<or> n = 133 \<or> n = 160)"

definition strip :: "string \<Rightarrow> string" where
  "strip s = rev (dropWhile isspace (rev (dropWhile isspace s)))"

text \<open>
  A value of the \<open>results\<close> dictionary of the batch: the protein record, or
  \<open>{"error": ...}\<close>. The dictionary keeps insertion order, and the loop assigns a key
  only when it is absent, so it is a list of pairs that grows at the end.
\<close>

datatype report_entry = Found protein_info | Error string

fun batch_loop ::
  "nat \<Rightarrow> server \<Rightarrow> SearchCriteria \<Rightarrow> string list \<Rightarrow> (string \<times> report_entry) list
     \<Rightarrow> request list \<Rightarrow> (string \<times> report_entry) list \<times> request list" where
  "batch_loop depth srv criteria [] results sent = (results, sent)"
| "batch_loop depth srv criteria (raw_name # rest) results sent =
     (let gene_name = strip raw_name in
      if gene_name \<noteq> [] \<and> gene_name \<notin> set (map fst results) then
        (case search_by_gene_name_robust depth srv gene_name (Some criteria) sent of
           (Some info, sent') \<Rightarrow>
             batch_loop depth srv criteria rest (results @ [(gene_name, Found info)]) sent'
         | (None, sent') \<Rightarrow>
             batch_loop depth srv criteria rest
               (results @ [(gene_name, Error ''Gene not found after all strategies'')]) sent')
      else batch_loop depth srv criteria rest results sent)"

definition search_multiple_genes_robust ::
  "nat \<Rightarrow> server \<Rightarrow> string list \<Rightarrow> SearchCriteria option \<Rightarrow> request list
     \<Rightarrow> (string \<times> report_entry) list \<times> request list" where
  "search_multiple_genes_robust depth srv gene_list criteria sent =
     batch_loop depth srv (criteria_or_default criteria) gene_list [] sent"

definition search_multiple_genes ::
  "nat \<Rightarrow> server \<Rightarrow> string list \<Rightarrow> request list
     \<Rightarrow> (string \<times> report_entry) list \<times> request list" where
  "search_multiple_genes depth srv gene_list sent =
     search_multiple_genes_robust depth srv gene_list (Some default_criteria) sent"

subsection \<open>The session mounted by \<open>_setup_session\<close>\<close>

text \<open>
  The constructor's \<open>self.max_retries = max_retries or config.max_retries\<close>, with
  \<open>config.max_retries = 3\<close>: an argument left out, or zero, gives 3.
\<close>

definition fetcher_max_retries :: "nat option \<Rightarrow> nat" where
  "fetcher_max_retries max_retries =
     (case max_retries of None \<Rightarrow> 3 | Some n \<Rightarrow> if n = 0 then 3 else n)"

text \<open>The \<open>status_forcelist\<close> that \<open>_setup_session\<close> gives to \<open>Retry\<close>.\<close>

definition status_forcelist :: "nat list" where
  "status_forcelist = [429, 500, 502, 503, 504]"

definition must_retry :: "outcome \<Rightarrow> bool" where
  "must_retry out =
     (case out of Raises \<Rightarrow> True | Response status header body \<Rightarrow> status \<in> set status_forcelist)"

text \<open>
  Modelled from the spec: the retrying adapter that \<open>_setup_session\<close> mounts on the
  session (\<open>HTTPAdapter\<close> with \<open>Retry(total=self.max_retries, ...)\<close>, classes of the
  libraries \<open>requests\<close> and \<open>urllib3\<close>, whose code is not part of the repository).
  After the specification of the transport: on a rate-limit signal, a transient
  network failure or a listed server error the identical query is sent again, but only
  up to the retry ceiling; exceeding the ceiling yields a failure. \<open>wire\<close> is the
  server as it answers each physical request, \<open>physical\<close> the physical requests made
  so far, and \<open>retries\<close> the retries left.
\<close>

fun session_get ::
  "nat \<Rightarrow> server \<Rightarrow> request \<Rightarrow> request list \<Rightarrow> outcome \<times> request list" where
  "session_get 0 wire req physical =
     (let physical' = physical @ [req]
      in if must_retry (wire physical') then (Raises, physical')
         else (wire physical', physical'))"
| "session_get (Suc retries) wire req physical =
     (let physical' = physical @ [req]
      in if must_retry (wire physical') then session_get retries wire req physical'
         else (wire physical', physical'))"

text \<open>
  The physical requests that a list of calls of \<open>session.get\<close> causes, and the session
  as a server: what the last call of the list hands back, after the physical requests of
  the calls before it.
\<close>

definition physical_log :: "nat \<Rightarrow> server \<Rightarrow> request list \<Rightarrow> request list" where
  "physical_log retries wire calls =
     foldl (\<lambda>physical req. snd (session_get retries wire req physical)) [] calls"

definition mounted_session :: "nat \<Rightarrow> server \<Rightarrow> server" where
  "mounted_session retries wire calls =
     (case rev calls of
        [] \<Rightarrow> Raises
      | req # before \<Rightarrow>
          fst (session_get retries wire req (physical_log retries wire (rev before))))"

subsection \<open>The batch report in the words of the specification\<close>

text \<open>
  The report as the specification describes it: the engine is invoked once for each
  symbol of a list, in the order of the list, each invocation starting where the one
  before ended; the result is recorded under its symbol, a protein as it is and a
  failure as the error entry, and the next symbol is taken whatever the result was.
\<close>

fun resolve_each ::
  "nat \<Rightarrow> server \<Rightarrow> SearchCriteria \<Rightarrow> string list \<Rightarrow> request list
     \<Rightarrow> (string \<times> report_entry) list \<times> request list" where
  "resolve_each depth srv criteria [] sent = ([], sent)"
| "resolve_each depth srv criteria (symbol # symbols) sent =
     (case search_by_gene_name_robust depth srv symbol (Some criteria) sent of
        (resolved, sent') \<Rightarrow>
          (case resolve_each depth srv criteria symbols sent' of
             (entries, sent'') \<Rightarrow>
               ((symbol,
                 (case resolved of
                    Some info \<Rightarrow> Found info
                  | None \<Rightarrow> Error ''Gene not found after all strategies''))
                # entries, sent'')))"

subsection \<open>Predicates on what the session hands back\<close>

text \<open>
  The three ways \<open>_search_with_strategy\<close> treats an answer: status 429 (with a wait
  that can be slept) sends the request again; an answer with candidates is a success
  response whose \<open>results\<close> array is not empty; every other answer ends the strategy
  without a protein.
\<close>

definition is_rate_limited :: "outcome \<Rightarrow> bool" where
  "is_rate_limited out =
     (case out of Raises \<Rightarrow> False
      | Response status header body \<Rightarrow>
          \<not> response_ok status \<and> status = 429 \<and> retry_wait header \<noteq> None)"

definition yields_candidates :: "outcome \<Rightarrow> bool" where
  "yields_candidates out =
     (case out of Raises \<Rightarrow> False
      | Response status header body \<Rightarrow>
          response_ok status \<and> (case body of None \<Rightarrow> False | Some results \<Rightarrow> results \<noteq> []))"

definition no_candidates :: "outcome \<Rightarrow> bool" where
  "no_candidates out \<longleftrightarrow> \<not> is_rate_limited out \<and> \<not> yields_candidates out"

text \<open>What \<open>_search_with_strategy\<close> returns on an answer that it does not retry.\<close>

definition result_of :: "string \<Rightarrow> outcome \<Rightarrow> protein_info option res" where
  "result_of gene_name out =
     (case out of Raises \<Rightarrow> Raise
      | Response status header body \<Rightarrow>
          if response_ok status then
            (case body of None \<Rightarrow> Raise | Some results \<Rightarrow> handle_results gene_name results)
          else if status = 429 then Raise
          else Return None)"

text \<open>The answer is the rate-limit signal, status 429.\<close>

definition answers_429 :: "outcome \<Rightarrow> bool" where
  "answers_429 out = (case out of Raises \<Rightarrow> False | Response status header body \<Rightarrow> status = 429)"

subsection \<open>Sample data and observations for the concrete checks\<close>

text \<open>
  A server that answers its first \<open>n\<close> requests with status 429 (no
  \<open>Retry-After\<close>) and every later one with status 200 and the entries \<open>entries\<close>.
\<close>

definition throttled_server :: "nat \<Rightarrow> uniprot_entry list \<Rightarrow> server" where
  "throttled_server n entries sent =
     (if length sent \<le> n then Response 429 Absent None
      else Response 200 Absent (Some entries))"

text \<open>The entry \<open>{"primaryAccession": acc}\<close>, every other key absent.\<close>

definition bare_entry :: "string \<Rightarrow> uniprot_entry" where
  "bare_entry acc =
     \<lparr>primaryAccession = Some acc, uniProtkbId = None, genes = [],
      recommended_full_name = None, entryType = None, sequence_value = None,
      organism_scientific_name = None, reviewed_key = None, protein_name_value = None\<rparr>"

text \<open>
  The entry \<open>{"primaryAccession": acc, "entryType": kind}\<close>, as the search service
  marks curated and automatically annotated records.
\<close>

definition typed_entry :: "string \<Rightarrow> string \<Rightarrow> uniprot_entry" where
  "typed_entry acc kind =
     \<lparr>primaryAccession = Some acc, uniProtkbId = None, genes = [],
      recommended_full_name = None, entryType = Some kind, sequence_value = None,
      organism_scientific_name = None, reviewed_key = None, protein_name_value = None\<rparr>"

text \<open>A server that answers its \<open>i\<close>-th request with the \<open>i\<close>-th outcome of a script.\<close>

definition scripted_server :: "outcome list \<Rightarrow> server" where
  "scripted_server script sent =
     (case drop (length sent - 1) script of [] \<Rightarrow> Raises | out # _ \<Rightarrow> out)"

text \<open>The selected protein's accession is among the recorded \<open>all_accessions\<close>.\<close>

definition canonical_in_alternates :: "protein_info option res \<Rightarrow> bool" where
  "canonical_in_alternates r =
     (case r of
        Return (Some info) \<Rightarrow>
          (case all_accessions info of None \<Rightarrow> False | Some accs \<Rightarrow> accession info \<in> set accs)
      | _ \<Rightarrow> False)"

section \<open>Properties\<close>

text \<open>
  The theorems below hold for every \<open>depth\<close>, and those about an arbitrary server
  \<open>srv\<close> hold in particular of the fetcher's own session,
  \<open>mounted_session (fetcher_max_retries m) wire\<close>.
\<close>

subsection \<open>Query strings and the strategy list\<close>

text \<open>
  Claim C4. For the base criteria with organism id "9606", reviewed-only and exact
  match set, and the gene symbol "TP53", the query of the first strategy is the string
  \<open>gene_exact:TP53 AND organism_id:9606 AND reviewed:true\<close>: gene clause, organism
  clause, reviewed clause, joined by \<open>AND\<close>. It holds whatever the other two fields of
  the base criteria are.
\<close>

theorem first_strategy_query_TP53:
  "build_search_query ''TP53''
     (hd (strategies \<lparr>organism_id = Some ''9606'', reviewed_only = True, exact_match = True,
                      max_results = m, include_synonyms = b\<rparr>))
   = ''gene_exact:TP53 AND organism_id:9606 AND reviewed:true''"
  by (simp add: strategies_def build_search_query_def organism_clause_def)

text \<open>
  Claim C9. The strategy list is a function of the base criteria alone. It always has
  four elements, in the order reviewed-only + exact, not reviewed-only + exact,
  reviewed-only + fuzzy, not reviewed-only + fuzzy; each carries the organism id and the
  maximal result count of the base; and the base's own two flags do not enter it.
\<close>

theorem strategies_fixed_order:
  "length (strategies c) = 4
   \<and> map reviewed_only (strategies c) = [True, False, True, False]
   \<and> map exact_match (strategies c) = [True, True, False, False]
   \<and> map organism_id (strategies c) = replicate 4 (organism_id c)
   \<and> map max_results (strategies c) = replicate 4 (max_results c)
   \<and> strategies (c\<lparr>reviewed_only := r, exact_match := e\<rparr>) = strategies c"
  by (simp add: strategies_def numeral_eq_Suc)

text \<open>
  Claim C10. The legacy single-gene operation returns what the robust one returns with
  the default criteria, passed explicitly or left out, and sends the same requests; and
  so does the legacy batch operation with respect to the robust batch operation.
\<close>

theorem legacy_entry_points_agree:
  "search_by_gene_name depth srv g sent
     = search_by_gene_name_robust depth srv g (Some default_criteria) sent
   \<and> search_by_gene_name depth srv g sent = search_by_gene_name_robust depth srv g None sent
   \<and> search_multiple_genes depth srv gs sent
       = search_multiple_genes_robust depth srv gs (Some default_criteria) sent
   \<and> search_multiple_genes depth srv gs sent
       = search_multiple_genes_robust depth srv gs None sent"
  by (simp add: search_by_gene_name_def search_multiple_genes_def
      search_by_gene_name_robust_def search_multiple_genes_robust_def criteria_or_default_def)

subsection \<open>Handling one response\<close>

lemma prioritize_reviewed_nonempty: "original \<noteq> [] \<Longrightarrow> prioritize_reviewed original \<noteq> []"
  by (simp add: prioritize_reviewed_def Let_def)

lemma prioritize_reviewed_subset: "set (prioritize_reviewed original) \<subseteq> set original"
  by (auto simp add: prioritize_reviewed_def Let_def)

text \<open>
  The code restricts only when there are two or more results; with a single result the
  restriction would change nothing, so the selected entry is the same. The restriction
  reads the entry's own key \<open>reviewed\<close>.
\<close>

lemma prioritize_reviewed_hd:
  assumes "original \<noteq> []"
  shows "hd (prioritize_reviewed original) =
         hd (if list_ex is_marked_reviewed original
             then filter is_marked_reviewed original else original)"
proof (cases "1 < length original")
  case True
  then show ?thesis
    by (auto simp add: prioritize_reviewed_def Let_def list_ex_iff filter_empty_conv)
next
  case False
  with assms obtain r where "original = [r]"
    by (cases original) auto
  then show ?thesis by (simp add: prioritize_reviewed_def)
qed

lemma handle_results_hd:
  assumes ne: "original \<noteq> []"
  shows "\<exists>info. handle_results g original = Return (Some info)
     \<and> info\<lparr>multiple_results_found := None, total_results := None, selected_result := None,
            all_accessions := None, all_protein_names := None\<rparr>
         = extract_protein_info (hd (prioritize_reviewed original)) g
     \<and> multiple_results_found info = Some (1 < length original)
     \<and> accession info = primaryAccession (hd (prioritize_reviewed original))
     \<and> all_accessions info
         = (if 1 < length original then Some (map primaryAccession original) else None)
     \<and> total_results info = Some (length original)"
proof -
  obtain r rest where pr: "prioritize_reviewed original = r # rest"
    using prioritize_reviewed_nonempty[OF ne] by (cases "prioritize_reviewed original") auto
  have one: "\<not> 1 < length original \<Longrightarrow> length original = 1"
    using ne by (cases original) auto
  show ?thesis
    using ne pr one by (auto simp add: handle_results_def Let_def extract_protein_info_def)
qed

text \<open>
  Claim C7, where the code departs from it. The restriction to reviewed entries tests
  the key \<open>reviewed\<close> of a response entry, whereas the reviewed flag of a candidate, as
  \<open>_extract_protein_info\<close> determines it, comes from \<open>entryType\<close>. For a response with
  an unreviewed (TrEMBL) entry followed by a reviewed (Swiss-Prot) entry, neither
  carrying a key \<open>reviewed\<close>, the second candidate is reviewed and the first is not, and
  the code selects the first, unreviewed one, with the note "First result". The
  indicator \<open>multiple_results_found\<close> is set, as the response has two entries.
\<close>

theorem unreviewed_entry_selected_over_reviewed:
  "\<not> reviewed (extract_protein_info
                 (typed_entry ''A0A087WT22'' ''UniProtKB unreviewed (TrEMBL)'') ''TP53'')
   \<and> reviewed (extract_protein_info
                 (typed_entry ''P04637'' ''UniProtKB reviewed (Swiss-Prot)'') ''TP53'')
   \<and> handle_results ''TP53''
        [typed_entry ''A0A087WT22'' ''UniProtKB unreviewed (TrEMBL)'',
         typed_entry ''P04637'' ''UniProtKB reviewed (Swiss-Prot)'']
      = Return (Some
          \<lparr>accession = Some ''A0A087WT22'', uniprot_id = None, gene_names = ''TP53'',
           protein_name = ''Unknown'', sequence = None, organism = ''Unknown'',
           reviewed = False, entry_type = ''UniProtKB unreviewed (TrEMBL)'',
           multiple_results_found = Some True, total_results = Some 2,
           selected_result = Some ''First result'',
           all_accessions = Some [Some ''A0A087WT22'', Some ''P04637''],
           all_protein_names = Some [''Unknown'', ''Unknown'']\<rparr>)"
  by (simp add: handle_results_def prioritize_reviewed_def is_marked_reviewed_def
      typed_entry_def extract_protein_info_def get_or_def Let_def)

text \<open>
  Claim C1, as the code has it. In the multiple-results case the record
  \<open>all_accessions\<close> lists the primary accession of every entry of the response, in the
  order of the response and with nothing removed; the selected protein's accession is
  therefore always one of them, and \<open>total_results\<close> is the length of that list.
\<close>

theorem all_accessions_lists_every_candidate:
  assumes "1 < length original"
  shows "\<exists>info. handle_results g original = Return (Some info)
     \<and> all_accessions info = Some (map primaryAccession original)
     \<and> accession info \<in> set (map primaryAccession original)
     \<and> total_results info = Some (length original)"
proof -
  from assms have ne: "original \<noteq> []" by auto
  have "hd (prioritize_reviewed original) \<in> set original"
    using prioritize_reviewed_subset prioritize_reviewed_nonempty[OF ne] hd_in_set by blast
  then show ?thesis
    using handle_results_hd[OF ne, of g] assms by auto
qed

theorem all_accessions_lists_every_candidate_witness:
  "1 < length [bare_entry ''P04637'', bare_entry ''Q53GA5'']
   \<and> (\<exists>info. handle_results ''TP53'' [bare_entry ''P04637'', bare_entry ''Q53GA5'']
             = Return (Some info)
          \<and> all_accessions info = Some [Some ''P04637'', Some ''Q53GA5''])"
  using all_accessions_lists_every_candidate
          [of "[bare_entry ''P04637'', bare_entry ''Q53GA5'']" "''TP53''"]
  by (auto simp add: bare_entry_def)

text \<open>
  The claim as stated fails: for a response with the two accessions P04637 and Q53GA5
  the first entry is selected, and its accession P04637 is in \<open>all_accessions\<close>.
\<close>

theorem canonical_accession_among_alternates:
  "canonical_in_alternates
     (handle_results ''TP53'' [bare_entry ''P04637'', bare_entry ''Q53GA5''])"
  by (simp add: canonical_in_alternates_def handle_results_def prioritize_reviewed_def
      is_marked_reviewed_def bare_entry_def extract_protein_info_def Let_def)

subsection \<open>One strategy: retries on status 429\<close>

text \<open>
  Unfoldings of \<open>search_with_strategy\<close>, by what the session hands back: a retried
  status 429 sends the same request again, as long as the recursion limit allows; any
  other answer ends the call.
\<close>

lemma sws_retry:
  "is_rate_limited (srv (sent @ [mk_request g c])) \<Longrightarrow>
   search_with_strategy (Suc d) srv g c sent = search_with_strategy d srv g c (sent @ [mk_request g c])"
  by (subst search_with_strategy.simps)
    (auto simp: is_rate_limited_def Let_def split: outcome.splits)

lemma sws_recursion_error:
  "is_rate_limited (srv (sent @ [mk_request g c])) \<Longrightarrow>
   search_with_strategy 0 srv g c sent = (Raise, sent @ [mk_request g c])"
  by (subst search_with_strategy.simps)
    (auto simp: is_rate_limited_def Let_def split: outcome.splits)

lemma sws_final:
  "\<not> is_rate_limited (srv (sent @ [mk_request g c])) \<Longrightarrow>
   search_with_strategy d srv g c sent
     = (result_of g (srv (sent @ [mk_request g c])), sent @ [mk_request g c])"
  by (subst search_with_strategy.simps)
    (auto simp: is_rate_limited_def result_of_def Let_def split: outcome.splits option.splits)

text \<open>
  When every answer is a retried 429, the call ends by \<open>RecursionError\<close>, after
  \<open>depth + 1\<close> identical requests.
\<close>

lemma recursion_limit_ends_retries:
  "(\<forall>i\<le>d. is_rate_limited (srv (sent @ replicate (Suc i) (mk_request g c)))) \<Longrightarrow>
   search_with_strategy d srv g c sent = (Raise, sent @ replicate (Suc d) (mk_request g c))"
proof (induction d arbitrary: sent)
  case 0
  then show ?case by (simp add: sws_recursion_error)
next
  case (Suc d)
  from Suc.prems have first: "is_rate_limited (srv (sent @ [mk_request g c]))"
    by (metis le0 replicate.simps(1) replicate.simps(2))
  have rest: "\<forall>i\<le>d. is_rate_limited
                (srv ((sent @ [mk_request g c]) @ replicate (Suc i) (mk_request g c)))"
    using Suc.prems by (auto dest: spec[of _ "Suc _"])
  from Suc.IH[OF rest] first show ?case by (simp add: sws_retry)
qed

lemma yields_result:
  "yields_candidates out \<Longrightarrow>
   \<not> is_rate_limited out \<and> (\<exists>info. result_of g out = Return (Some info))"
  using handle_results_hd
  by (auto simp add: yields_candidates_def is_rate_limited_def result_of_def
      split: outcome.splits option.splits)

lemma no_candidates_result:
  "no_candidates out \<Longrightarrow>
   \<not> is_rate_limited out \<and> (result_of g out = Raise \<or> result_of g out = Return None)"
  by (auto simp add: no_candidates_def yields_candidates_def result_of_def handle_results_def
      split: outcome.splits option.splits)

subsection \<open>The waterfall\<close>

lemma try_strategies_first_success:
  "k < length ss \<Longrightarrow>
   (\<forall>i<k. no_candidates (srv (sent @ map (mk_request g) (take (Suc i) ss)))) \<Longrightarrow>
   yields_candidates (srv (sent @ map (mk_request g) (take (Suc k) ss))) \<Longrightarrow>
   \<exists>info. result_of g (srv (sent @ map (mk_request g) (take (Suc k) ss))) = Return (Some info)
     \<and> try_strategies d srv g ss sent
         = (Some info, sent @ map (mk_request g) (take (Suc k) ss))"
proof (induction ss arbitrary: k sent)
  case Nil
  then show ?case by simp
next
  case (Cons s ss)
  show ?case
  proof (cases k)
    case 0
    with Cons.prems(3) have y: "yields_candidates (srv (sent @ [mk_request g s]))" by simp
    from yields_result[OF y, of g] obtain info where
      nrl: "\<not> is_rate_limited (srv (sent @ [mk_request g s]))"
      and r: "result_of g (srv (sent @ [mk_request g s])) = Return (Some info)" by blast
    show ?thesis using 0 r nrl by (simp add: sws_final)
  next
    case (Suc j)
    from Cons.prems(2) Suc have n0: "no_candidates (srv (sent @ [mk_request g s]))"
      by (metis list.simps(8,9) take_Suc_Cons take_0 zero_less_Suc)
    from no_candidates_result[OF n0, of g] have
      nrl: "\<not> is_rate_limited (srv (sent @ [mk_request g s]))"
      and r: "result_of g (srv (sent @ [mk_request g s])) = Raise
              \<or> result_of g (srv (sent @ [mk_request g s])) = Return None"
      by blast+
    have step: "try_strategies d srv g (s # ss) sent
                = try_strategies d srv g ss (sent @ [mk_request g s])"
      using r nrl by (auto simp add: sws_final)
    have jl: "j < length ss" using Cons.prems(1) Suc by simp
    have pre: "\<forall>i<j. no_candidates
                 (srv ((sent @ [mk_request g s]) @ map (mk_request g) (take (Suc i) ss)))"
      using Cons.prems(2) Suc by (auto dest: spec[of _ "Suc _"])
    have y: "yields_candidates
               (srv ((sent @ [mk_request g s]) @ map (mk_request g) (take (Suc j) ss)))"
      using Cons.prems(3) Suc by simp
    from Cons.IH[OF jl pre y] show ?thesis using step Suc by simp
  qed
qed

lemma try_strategies_exhausted:
  "(\<forall>i<length ss. no_candidates (srv (sent @ map (mk_request g) (take (Suc i) ss)))) \<Longrightarrow>
   try_strategies d srv g ss sent = (None, sent @ map (mk_request g) ss)"
proof (induction ss arbitrary: sent)
  case Nil
  then show ?case by simp
next
  case (Cons s ss)
  from Cons.prems have n0: "no_candidates (srv (sent @ [mk_request g s]))"
    by (metis length_greater_0_conv list.simps(8,9) list.distinct(1) take_Suc_Cons take_0)
  from no_candidates_result[OF n0, of g] have
    nrl: "\<not> is_rate_limited (srv (sent @ [mk_request g s]))"
    and r: "result_of g (srv (sent @ [mk_request g s])) = Raise
            \<or> result_of g (srv (sent @ [mk_request g s])) = Return None"
    by blast+
  have step: "try_strategies d srv g (s # ss) sent
              = try_strategies d srv g ss (sent @ [mk_request g s])"
    using r nrl by (auto simp add: sws_final)
  have pre: "\<forall>i<length ss. no_candidates
               (srv ((sent @ [mk_request g s]) @ map (mk_request g) (take (Suc i) ss)))"
    using Cons.prems by (auto dest: spec[of _ "Suc _"])
  from Cons.IH[OF pre] show ?case using step by simp
qed

lemma try_strategies_calls:
  "(\<And>calls. \<not> is_rate_limited (srv calls)) \<Longrightarrow>
   \<exists>j\<le>length ss. snd (try_strategies d srv g ss sent) = sent @ map (mk_request g) (take j ss)"
proof (induction ss arbitrary: sent)
  case Nil
  then show ?case by simp
next
  case (Cons s ss)
  have sws: "search_with_strategy d srv g s sent
             = (result_of g (srv (sent @ [mk_request g s])), sent @ [mk_request g s])"
    using Cons.prems by (simp add: sws_final)
  show ?case
  proof (cases "\<exists>info. result_of g (srv (sent @ [mk_request g s])) = Return (Some info)")
    case True
    then have "snd (try_strategies d srv g (s # ss) sent)
               = sent @ map (mk_request g) (take 1 (s # ss))"
      using sws by auto
    then show ?thesis by (intro exI[of _ 1]) simp
  next
    case False
    then have step: "try_strategies d srv g (s # ss) sent
                     = try_strategies d srv g ss (sent @ [mk_request g s])"
      using sws by (cases "result_of g (srv (sent @ [mk_request g s]))")
        (auto split: option.splits)
    from Cons.IH[OF Cons.prems, of "sent @ [mk_request g s]"] obtain j where
      j: "j \<le> length ss"
      "snd (try_strategies d srv g ss (sent @ [mk_request g s]))
         = (sent @ [mk_request g s]) @ map (mk_request g) (take j ss)"
      by blast
    then have "snd (try_strategies d srv g (s # ss) sent)
               = sent @ map (mk_request g) (take (Suc j) (s # ss))"
      using step by simp
    with j(1) show ?thesis by (intro exI[of _ "Suc j"]) simp
  qed
qed

text \<open>
  Claim C2. If the answer to a strategy's request has one or more candidates, and every
  earlier strategy got an answer without candidates, the search returns the protein
  selected from that answer, and the requests sent are exactly those of the strategies
  up to this one, one each: no later strategy is tried. For the first strategy
  (\<open>k = 0\<close>) the session is called exactly once.
\<close>

theorem first_success_short_circuit:
  assumes "k < 4"
    and "\<forall>i<k. no_candidates
           (srv (sent @ map (mk_request g) (take (Suc i) (strategies (criteria_or_default c)))))"
    and "yields_candidates
           (srv (sent @ map (mk_request g) (take (Suc k) (strategies (criteria_or_default c)))))"
  shows "\<exists>info.
           result_of g
             (srv (sent @ map (mk_request g) (take (Suc k) (strategies (criteria_or_default c)))))
             = Return (Some info)
         \<and> search_by_gene_name_robust depth srv g c sent
             = (Some info,
                sent @ map (mk_request g) (take (Suc k) (strategies (criteria_or_default c))))"
proof -
  have "k < length (strategies (criteria_or_default c))"
    using assms(1) by (simp add: strategies_def)
  from try_strategies_first_success[OF this assms(2) assms(3)]
  show ?thesis by (simp add: search_by_gene_name_robust_def)
qed

theorem first_success_short_circuit_witness:
  "fst (search_by_gene_name_robust 986
          (scripted_server [Response 200 Absent (Some []),
                            Response 200 Absent (Some [bare_entry ''P04637''])])
          ''TP53'' None []) \<noteq> None
   \<and> snd (search_by_gene_name_robust 986
          (scripted_server [Response 200 Absent (Some []),
                            Response 200 Absent (Some [bare_entry ''P04637''])])
          ''TP53'' None [])
      = [\<lparr>query = ''gene_exact:TP53 AND organism_id:9606 AND reviewed:true'', size = 10\<rparr>,
         \<lparr>query = ''gene_exact:TP53 AND organism_id:9606'', size = 10\<rparr>]"
  using first_success_short_circuit
          [of 1 "scripted_server [Response 200 Absent (Some []),
                                  Response 200 Absent (Some [bare_entry ''P04637''])]"
              "[]" "''TP53''" None 986]
  by (auto simp add: scripted_server_def yields_candidates_def no_candidates_def
      is_rate_limited_def retry_wait_def response_ok_def
      strategies_def criteria_or_default_def default_criteria_def mk_request_def
      build_search_query_def organism_clause_def)

text \<open>
  Claim C3. If each of the four strategies gets an answer without candidates (an empty
  result list, an error status that is not retried, or an exception), the search sends
  exactly four requests, one per strategy in the order of the list, and returns no
  protein; the batch operation records this for the gene as the entry
  \<open>{"error": "Gene not found after all strategies"}\<close>.
\<close>

theorem exhausted_waterfall_not_found:
  assumes "\<forall>i<4. no_candidates
           (srv (sent @ map (mk_request g) (take (Suc i) (strategies (criteria_or_default c)))))"
  shows "search_by_gene_name_robust depth srv g c sent
           = (None, sent @ map (mk_request g) (strategies (criteria_or_default c)))
         \<and> length (map (mk_request g) (strategies (criteria_or_default c))) = 4
         \<and> (strip raw = g \<and> g \<noteq> [] \<longrightarrow>
              search_multiple_genes_robust depth srv [raw] c sent
                = ([(g, Error ''Gene not found after all strategies'')],
                   sent @ map (mk_request g) (strategies (criteria_or_default c))))"
proof -
  have len: "length (strategies (criteria_or_default c)) = 4"
    by (simp add: strategies_def)
  have main: "search_by_gene_name_robust depth srv g c sent
           = (None, sent @ map (mk_request g) (strategies (criteria_or_default c)))"
    unfolding search_by_gene_name_robust_def
    using assms len by (intro try_strategies_exhausted) simp
  have same: "search_by_gene_name_robust depth srv g (Some (criteria_or_default c)) sent
      = search_by_gene_name_robust depth srv g c sent"
    by (simp add: search_by_gene_name_robust_def criteria_or_default_def)
  show ?thesis using main same len
    by (simp add: search_multiple_genes_robust_def Let_def)
qed

theorem exhausted_waterfall_not_found_witness:
  "search_by_gene_name_robust 986 (scripted_server (replicate 4 (Response 200 Absent (Some []))))
       ''NOTAREALGENE123'' None []
     = (None,
         [\<lparr>query = ''gene_exact:NOTAREALGENE123 AND organism_id:9606 AND reviewed:true'', size = 10\<rparr>,
          \<lparr>query = ''gene_exact:NOTAREALGENE123 AND organism_id:9606'', size = 10\<rparr>,
          \<lparr>query = ''gene:NOTAREALGENE123 AND organism_id:9606 AND reviewed:true'', size = 10\<rparr>,
          \<lparr>query = ''gene:NOTAREALGENE123 AND organism_id:9606'', size = 10\<rparr>])"
proof -
  let ?srv = "scripted_server (replicate 4 (Response 200 Absent (Some [])))"
  have hyp: "\<forall>i<4. no_candidates
           (?srv ([] @ map (mk_request ''NOTAREALGENE123'')
                         (take (Suc i) (strategies (criteria_or_default None)))))"
  proof (intro allI impI)
    fix i :: nat assume "i < 4"
    then consider "i = 0" | "i = 1" | "i = 2" | "i = 3" by linarith
    then show "no_candidates
           (?srv ([] @ map (mk_request ''NOTAREALGENE123'')
                         (take (Suc i) (strategies (criteria_or_default None)))))"
      by cases (simp_all add: strategies_def scripted_server_def no_candidates_def
          is_rate_limited_def retry_wait_def yields_candidates_def response_ok_def numeral_eq_Suc)
  qed
  from exhausted_waterfall_not_found[OF hyp, of 986] show ?thesis
    by (simp add: strategies_def criteria_or_default_def default_criteria_def mk_request_def
      build_search_query_def organism_clause_def)
qed

subsection \<open>The mounted session: retries up to the ceiling\<close>

lemma session_get_sends:
  "\<exists>k. 1 \<le> k \<and> k \<le> retries + 1
       \<and> snd (session_get retries wire q physical) = physical @ replicate k q"
proof (induction retries arbitrary: physical)
  case 0
  have "snd (session_get 0 wire q physical) = physical @ replicate 1 q"
    by (simp add: Let_def)
  then show ?case by (intro exI[of _ 1]) simp
next
  case (Suc retries)
  show ?case
  proof (cases "must_retry (wire (physical @ [q]))")
    case True
    from Suc.IH[of "physical @ [q]"] obtain k where
      k: "1 \<le> k" "k \<le> retries + 1"
      "snd (session_get retries wire q (physical @ [q])) = (physical @ [q]) @ replicate k q"
      by blast
    have "snd (session_get (Suc retries) wire q physical) = physical @ replicate (Suc k) q"
      using True k(3) by (simp add: Let_def)
    with k(1,2) show ?thesis by (intro exI[of _ "Suc k"]) simp
  next
    case False
    then have "snd (session_get (Suc retries) wire q physical) = physical @ replicate 1 q"
      by (simp add: Let_def)
    then show ?thesis by (intro exI[of _ 1]) simp
  qed
qed

lemma session_get_length:
  "length (snd (session_get retries wire q physical)) \<le> length physical + (retries + 1)"
  using session_get_sends[of retries wire q physical] by auto

lemma session_get_gives_up:
  "(\<forall>i\<le>retries. must_retry (wire (physical @ replicate (Suc i) q))) \<Longrightarrow>
   session_get retries wire q physical = (Raises, physical @ replicate (retries + 1) q)"
proof (induction retries arbitrary: physical)
  case 0
  then show ?case by (simp add: Let_def)
next
  case (Suc retries)
  from Suc.prems have first: "must_retry (wire (physical @ [q]))"
    by (metis le0 replicate.simps(1) replicate.simps(2))
  have rest: "\<forall>i\<le>retries. must_retry (wire ((physical @ [q]) @ replicate (Suc i) q))"
    using Suc.prems by (auto dest: spec[of _ "Suc _"])
  from Suc.IH[OF rest] first show ?case by (simp add: Let_def)
qed

lemma session_get_outcome:
  "fst (session_get retries wire q physical) = Raises
   \<or> \<not> must_retry (fst (session_get retries wire q physical))"
  by (induction retries arbitrary: physical) (auto simp add: Let_def)

lemma rate_limited_must_retry: "is_rate_limited out \<Longrightarrow> must_retry out \<and> out \<noteq> Raises"
  by (auto simp add: is_rate_limited_def must_retry_def status_forcelist_def split: outcome.splits)

lemma answers_429_must_retry: "answers_429 out \<Longrightarrow> must_retry out"
  by (auto simp add: answers_429_def must_retry_def status_forcelist_def split: outcome.splits)

lemma physical_log_snoc:
  "physical_log retries wire (calls @ [q])
     = snd (session_get retries wire q (physical_log retries wire calls))"
  by (simp add: physical_log_def)

lemma mounted_session_snoc:
  "mounted_session retries wire (calls @ [q])
     = fst (session_get retries wire q (physical_log retries wire calls))"
  by (simp add: mounted_session_def)

lemma mounted_session_not_rate_limited:
  "\<not> is_rate_limited (mounted_session retries wire calls)"
proof (cases calls rule: rev_cases)
  case Nil
  then show ?thesis by (simp add: mounted_session_def is_rate_limited_def)
next
  case (snoc before q)
  show ?thesis
    unfolding snoc mounted_session_snoc
    using session_get_outcome[of retries wire q "physical_log retries wire before"]
      rate_limited_must_retry by (auto simp add: is_rate_limited_def)
qed

lemma physical_log_append_length:
  "length (physical_log retries wire (calls @ extra))
     \<le> length (physical_log retries wire calls) + length extra * (retries + 1)"
proof (induction extra rule: rev_induct)
  case Nil
  then show ?case by simp
next
  case (snoc q extra)
  have "length (physical_log retries wire ((calls @ extra) @ [q]))
        \<le> length (physical_log retries wire (calls @ extra)) + (retries + 1)"
    unfolding physical_log_snoc by (rule session_get_length)
  with snoc show ?case by (simp add: algebra_simps)
qed

lemma robust_physical_bound:
  "length (physical_log retries wire
             (snd (search_by_gene_name_robust depth (mounted_session retries wire) g c sent)))
     \<le> length (physical_log retries wire sent) + 4 * (retries + 1)"
proof -
  let ?ss = "strategies (criteria_or_default c)"
  have len: "length ?ss = 4" by (simp add: strategies_def)
  from try_strategies_calls[of "mounted_session retries wire" ?ss depth g sent]
    mounted_session_not_rate_limited
  obtain j where j: "j \<le> length ?ss"
    "snd (try_strategies depth (mounted_session retries wire) g ?ss sent)
       = sent @ map (mk_request g) (take j ?ss)"
    by blast
  have "length (physical_log retries wire (sent @ map (mk_request g) (take j ?ss)))
        \<le> length (physical_log retries wire sent)
            + length (map (mk_request g) (take j ?ss)) * (retries + 1)"
    by (rule physical_log_append_length)
  also have "length (map (mk_request g) (take j ?ss)) * (retries + 1) \<le> 4 * (retries + 1)"
  proof (rule mult_le_mono1)
    show "length (map (mk_request g) (take j ?ss)) \<le> 4" using j(1) len by simp
  qed
  finally show ?thesis
    unfolding search_by_gene_name_robust_def j(2) by simp
qed

text \<open>
  Claim C5, as the code has it. One call of the session sends the identical query
  between one and \<open>retries + 1\<close> times, that is, it retries at most \<open>retries\<close> times
  (3 by default); when the server keeps answering 429 it sends the query exactly
  \<open>retries + 1\<close> times and then fails by raising, which the strategy loop takes as a
  strategy without candidates. A 429 answer never reaches \<open>_search_with_strategy\<close>, so
  each strategy calls the session once, and the number of physical requests for one
  gene is at most four times \<open>retries + 1\<close>, 16 by default.
\<close>

theorem physical_calls_bounded:
  "(\<exists>k. 1 \<le> k \<and> k \<le> retries + 1
        \<and> snd (session_get retries wire q physical) = physical @ replicate k q)
   \<and> ((\<forall>i\<le>retries. answers_429 (wire (physical @ replicate (Suc i) q)))
        \<longrightarrow> session_get retries wire q physical
              = (Raises, physical @ replicate (retries + 1) q))
   \<and> length (physical_log retries wire
               (snd (search_by_gene_name_robust depth (mounted_session retries wire) g c sent)))
       \<le> length (physical_log retries wire sent) + 4 * (retries + 1)
   \<and> fetcher_max_retries None = 3"
proof (intro conjI impI)
  show "\<exists>k. 1 \<le> k \<and> k \<le> retries + 1
        \<and> snd (session_get retries wire q physical) = physical @ replicate k q"
    by (rule session_get_sends)
next
  assume "\<forall>i\<le>retries. answers_429 (wire (physical @ replicate (Suc i) q))"
  then have "\<forall>i\<le>retries. must_retry (wire (physical @ replicate (Suc i) q))"
    using answers_429_must_retry by blast
  then show "session_get retries wire q physical
              = (Raises, physical @ replicate (retries + 1) q)"
    by (rule session_get_gives_up)
next
  show "length (physical_log retries wire
               (snd (search_by_gene_name_robust depth (mounted_session retries wire) g c sent)))
       \<le> length (physical_log retries wire sent) + 4 * (retries + 1)"
    by (rule robust_physical_bound)
next
  show "fetcher_max_retries None = 3" by (simp add: fetcher_max_retries_def)
qed

theorem physical_calls_bounded_witness:
  "session_get 3 (throttled_server 16 [])
     \<lparr>query = ''gene_exact:TP53 AND organism_id:9606 AND reviewed:true'', size = 10\<rparr> []
   = (Raises,
      replicate 4
        \<lparr>query = ''gene_exact:TP53 AND organism_id:9606 AND reviewed:true'', size = 10\<rparr>)"
proof -
  let ?q = "\<lparr>query = ''gene_exact:TP53 AND organism_id:9606 AND reviewed:true'', size = 10\<rparr>"
  have h: "\<forall>i\<le>3. answers_429 (throttled_server 16 [] ([] @ replicate (Suc i) ?q))"
    by (simp add: throttled_server_def answers_429_def)
  from physical_calls_bounded[of 3 "throttled_server 16 []" ?q "[]"] h
  have "session_get 3 (throttled_server 16 []) ?q [] = (Raises, [] @ replicate (3 + 1) ?q)"
    by blast
  then show ?thesis by simp
qed

text \<open>
  The claim as stated fails: with the default ceiling of 3 and a server that answers
  429 to everything, the search for one gene makes 16 physical requests, four for each
  strategy, and not at most four times three.
\<close>

theorem sixteen_physical_calls_on_rate_limit:
  "length (physical_log (fetcher_max_retries None) (throttled_server 16 [])
            (snd (search_by_gene_name_robust 986
                    (mounted_session (fetcher_max_retries None) (throttled_server 16 []))
                    ''TP53'' None [])))
   = 16"
  by code_simp

subsection \<open>The batch loop\<close>

lemma batch_skip_blank:
  "strip raw = [] \<Longrightarrow>
   batch_loop d srv c (pre @ raw # post) results sent
     = batch_loop d srv c (pre @ post) results sent"
  by (induction pre arbitrary: results sent)
    (auto simp add: Let_def split: option.splits prod.splits)

lemma remdups_snoc: "remdups (ys @ [x]) = filter (\<lambda>y. y \<noteq> x) (remdups ys) @ [x]"
  by (induction ys) auto

lemma first_seen_Cons:
  "rev (remdups (rev (x # xs))) = x # filter (\<lambda>y. y \<noteq> x) (rev (remdups (rev xs)))"
  by (simp add: remdups_snoc rev_filter)

lemma resolve_each_keys: "map fst (fst (resolve_each d srv c ks sent)) = ks"
proof (induction ks arbitrary: sent)
  case Nil
  then show ?case by simp
next
  case (Cons k ks)
  obtain r sent1 where rob: "search_by_gene_name_robust d srv k (Some c) sent = (r, sent1)"
    by (cases "search_by_gene_name_robust d srv k (Some c) sent") auto
  obtain entries sent2 where rest: "resolve_each d srv c ks sent1 = (entries, sent2)"
    by (cases "resolve_each d srv c ks sent1") auto
  from Cons.IH[of sent1] rest have "map fst entries = ks" by simp
  then show ?case using rob rest by simp
qed

lemma batch_loop_resolve_each:
  "batch_loop d srv c gs results sent
     = (case resolve_each d srv c
               (filter (\<lambda>g. g \<notin> set (map fst results))
                  (rev (remdups (rev (filter (\<lambda>g. g \<noteq> []) (map strip gs))))))
               sent of
          (entries, sent') \<Rightarrow> (results @ entries, sent'))"
proof (induction gs arbitrary: results sent)
  case Nil
  then show ?case by simp
next
  case (Cons raw gs)
  let ?g = "strip raw"
  define Z where "Z = rev (remdups (rev (filter (\<lambda>g. g \<noteq> []) (map strip gs))))"
  show ?case
  proof (cases "?g \<noteq> [] \<and> ?g \<notin> set (map fst results)")
    case False
    have step: "batch_loop d srv c (raw # gs) results sent = batch_loop d srv c gs results sent"
      using False by (auto simp add: Let_def)
    have keys: "filter (\<lambda>g. g \<notin> set (map fst results))
               (rev (remdups (rev (filter (\<lambda>g. g \<noteq> []) (map strip (raw # gs))))))
        = filter (\<lambda>g. g \<notin> set (map fst results)) Z"
    proof (cases "?g = []")
      case True
      then show ?thesis by (simp add: Z_def)
    next
      case nonblank: False
      with False have seen: "?g \<in> set (map fst results)" by simp
      have drop: "filter (\<lambda>g. g \<notin> set (map fst results)) (filter (\<lambda>y. y \<noteq> ?g) Z)
            = filter (\<lambda>g. g \<notin> set (map fst results)) Z"
        using seen by (induction Z) auto
      have "filter (\<lambda>g. g \<noteq> []) (map strip (raw # gs))
            = ?g # filter (\<lambda>g. g \<noteq> []) (map strip gs)"
        using nonblank by simp
      then have "rev (remdups (rev (filter (\<lambda>g. g \<noteq> []) (map strip (raw # gs)))))
            = ?g # filter (\<lambda>y. y \<noteq> ?g) Z"
        unfolding Z_def by (simp only: first_seen_Cons)
      then show ?thesis using seen drop by simp
    qed
    from Cons.IH[of results sent] show ?thesis
      unfolding step keys Z_def .
  next
    case True
    obtain r sent1 where
      rob: "search_by_gene_name_robust d srv ?g (Some c) sent = (r, sent1)"
      by (cases "search_by_gene_name_robust d srv ?g (Some c) sent") auto
    define e where "e = (case r of Some info \<Rightarrow> Found info
                         | None \<Rightarrow> Error ''Gene not found after all strategies'')"
    have step: "batch_loop d srv c (raw # gs) results sent
                = batch_loop d srv c gs (results @ [(?g, e)]) sent1"
      using True rob by (cases r) (simp_all add: Let_def e_def)
    have drop: "filter (\<lambda>g. g \<notin> set (map fst results)) (filter (\<lambda>y. y \<noteq> ?g) Z)
            = filter (\<lambda>g. g \<notin> set (map fst (results @ [(?g, e)]))) Z"
      by (induction Z) auto
    have "filter (\<lambda>g. g \<noteq> []) (map strip (raw # gs))
            = ?g # filter (\<lambda>g. g \<noteq> []) (map strip gs)"
      using True by simp
    then have "rev (remdups (rev (filter (\<lambda>g. g \<noteq> []) (map strip (raw # gs)))))
            = ?g # filter (\<lambda>y. y \<noteq> ?g) Z"
      unfolding Z_def by (simp only: first_seen_Cons)
    then have keys: "filter (\<lambda>g. g \<notin> set (map fst results))
               (rev (remdups (rev (filter (\<lambda>g. g \<noteq> []) (map strip (raw # gs))))))
        = ?g # filter (\<lambda>g. g \<notin> set (map fst (results @ [(?g, e)]))) Z"
      using True drop by simp
    show ?thesis
      unfolding step keys Cons.IH[of "results @ [(?g, e)]" sent1] Z_def[symmetric]
      using rob by (simp add: e_def split: prod.splits)
  qed
qed

text \<open>
  Claim C6, as the code has it. The only check for blank symbols is in the batch
  operation: a symbol that is empty after \<open>strip()\<close> is skipped there, wherever it
  stands in the input; it gets no entry in the report and causes no request. No error
  is recorded for it.
\<close>

theorem blank_symbols_skipped_by_batch:
  assumes "strip raw = []"
  shows "search_multiple_genes_robust depth srv (pre @ raw # post) c sent
           = search_multiple_genes_robust depth srv (pre @ post) c sent
         \<and> search_multiple_genes_robust depth srv [raw] c sent = ([], sent)"
  using assms batch_skip_blank[OF assms]
  by (simp add: search_multiple_genes_robust_def)

theorem blank_symbols_skipped_by_batch_witness:
  "strip ''  '' = []
   \<and> search_multiple_genes_robust 986 (scripted_server []) [''  ''] None [] = ([], [])"
proof -
  have b: "strip ''  '' = []" by (simp add: strip_def isspace_def)
  from blank_symbols_skipped_by_batch[OF b] show ?thesis using b by simp
qed

text \<open>
  The claim as stated fails for the per-gene operation: \<open>search_by_gene_name_robust\<close>
  called with the empty symbol sends the query \<open>gene_exact: AND organism_id:9606 AND
  reviewed:true\<close> and returns the protein that the server answers with.
\<close>

theorem empty_symbol_is_queried:
  "fst (search_by_gene_name_robust 986
          (scripted_server [Response 200 Absent (Some [bare_entry ''P04637''])]) [] None [])
     \<noteq> None
   \<and> snd (search_by_gene_name_robust 986
          (scripted_server [Response 200 Absent (Some [bare_entry ''P04637''])]) [] None [])
      = [\<lparr>query = ''gene_exact: AND organism_id:9606 AND reviewed:true'', size = 10\<rparr>]"
proof -
  let ?srv = "scripted_server [Response 200 Absent (Some [bare_entry ''P04637''])]"
  have len: "0 < length (strategies (criteria_or_default None))" by (simp add: strategies_def)
  have y: "yields_candidates
             (?srv ([] @ map (mk_request [])
                           (take (Suc 0) (strategies (criteria_or_default None)))))"
    by (simp add: scripted_server_def yields_candidates_def response_ok_def strategies_def)
  from try_strategies_first_success
         [where k = 0 and ss = "strategies (criteria_or_default None)" and srv = ?srv
            and sent = "[]" and g = "[]" and d = 986] len y
  obtain info where
    "try_strategies 986 ?srv [] (strategies (criteria_or_default None)) []
       = (Some info,
          [] @ map (mk_request []) (take (Suc 0) (strategies (criteria_or_default None))))"
    by auto
  then show ?thesis
    by (simp add: search_by_gene_name_robust_def strategies_def criteria_or_default_def
        default_criteria_def mk_request_def build_search_query_def organism_clause_def)
qed

text \<open>
  Claim C8. For every input list and every server, the batch operation returns the
  report that resolving each unique symbol in turn gives: the symbols are the stripped,
  non-blank symbols of the input in the order of their first occurrence, each of them is
  the key of exactly one entry, the entry of a symbol is the protein found for it or,
  when none was found, the error entry, and the loop goes on to the next symbol in
  either case.
\<close>

theorem batch_report_resolves_each_unique_symbol:
  "search_multiple_genes_robust depth srv gs c sent
     = resolve_each depth srv (criteria_or_default c)
         (rev (remdups (rev (filter (\<lambda>g. g \<noteq> []) (map strip gs))))) sent
   \<and> map fst (fst (search_multiple_genes_robust depth srv gs c sent))
       = rev (remdups (rev (filter (\<lambda>g. g \<noteq> []) (map strip gs))))
   \<and> distinct (map fst (fst (search_multiple_genes_robust depth srv gs c sent)))"
proof -
  have eq: "search_multiple_genes_robust depth srv gs c sent
     = resolve_each depth srv (criteria_or_default c)
         (rev (remdups (rev (filter (\<lambda>g. g \<noteq> []) (map strip gs))))) sent"
    unfolding search_multiple_genes_robust_def batch_loop_resolve_each
    by (simp split: prod.splits)
  have keys: "map fst (fst (search_multiple_genes_robust depth srv gs c sent))
       = rev (remdups (rev (filter (\<lambda>g. g \<noteq> []) (map strip gs))))"
    unfolding eq by (rule resolve_each_keys)
  have "distinct (map fst (fst (search_multiple_genes_robust depth srv gs c sent)))"
    unfolding keys by simp
  with eq keys show ?thesis by blast
qed

theorem batch_report_resolves_each_unique_symbol_witness:
  "fst (search_multiple_genes_robust 986
          (scripted_server
             [Response 200 Absent (Some [bare_entry ''P04637'']),
              Response 200 Absent (Some []), Response 200 Absent (Some []),
              Response 200 Absent (Some []), Response 200 Absent (Some [])])
          [''TP53'', ''  '', '' TP53 '', ''NOTAREALGENE123'', ''''] None [])
   = [(''TP53'',
       Found \<lparr>accession = Some ''P04637'', uniprot_id = None, gene_names = ''TP53'',
              protein_name = ''Unknown'', sequence = None, organism = ''Unknown'',
              reviewed = False, entry_type = ''Unknown'',
              multiple_results_found = Some False, total_results = Some 1,
              selected_result = Some ''Single result'', all_accessions = None,
              all_protein_names = None\<rparr>),
      (''NOTAREALGENE123'', Error ''Gene not found after all strategies'')]"
proof -
  define srv where "srv = scripted_server
             [Response 200 Absent (Some [bare_entry ''P04637'']),
              Response 200 Absent (Some []), Response 200 Absent (Some []),
              Response 200 Absent (Some []), Response 200 Absent (Some [])]"
  define gs where "gs = [''TP53'', ''  '', '' TP53 '', ''NOTAREALGENE123'', '''']"
  have keys: "rev (remdups (rev (filter (\<lambda>g. g \<noteq> []) (map strip gs))))
              = [''TP53'', ''NOTAREALGENE123'']"
  proof -
    have "strip ''TP53'' = ''TP53''" "strip ''  '' = []" "strip '' TP53 '' = ''TP53''"
      "strip ''NOTAREALGENE123'' = ''NOTAREALGENE123''" "strip [] = []"
      by code_simp+
    then show ?thesis by (simp add: gs_def)
  qed
  have run: "fst (resolve_each 986
          (scripted_server
             [Response 200 Absent (Some [bare_entry ''P04637'']),
              Response 200 Absent (Some []), Response 200 Absent (Some []),
              Response 200 Absent (Some []), Response 200 Absent (Some [])])
          (criteria_or_default None) [''TP53'', ''NOTAREALGENE123''] [])
   = [(''TP53'',
       Found \<lparr>accession = Some ''P04637'', uniprot_id = None, gene_names = ''TP53'',
              protein_name = ''Unknown'', sequence = None, organism = ''Unknown'',
              reviewed = False, entry_type = ''Unknown'',
              multiple_results_found = Some False, total_results = Some 1,
              selected_result = Some ''Single result'', all_accessions = None,
              all_protein_names = None\<rparr>),
      (''NOTAREALGENE123'', Error ''Gene not found after all strategies'')]"
    by code_simp
  have "search_multiple_genes_robust 986 srv gs None []
        = resolve_each 986 srv (criteria_or_default None)
            (rev (remdups (rev (filter (\<lambda>g. g \<noteq> []) (map strip gs))))) []"
    using batch_report_resolves_each_unique_symbol[of 986 srv gs None "[]"] by (rule conjunct1)
  then have "fst (search_multiple_genes_robust 986 srv gs None [])
        = fst (resolve_each 986 srv (criteria_or_default None)
                 [''TP53'', ''NOTAREALGENE123''] [])"
    unfolding keys by simp
  then show ?thesis unfolding srv_def gs_def run .
qed

end
